theory Spec2Isabelle
  imports Complex_Main
begin

section \<open>Python values, dictionaries and exceptions\<close>

text \<open>
  The analyzer of \<^verbatim>\<open>main.py\<close> keeps a \<^verbatim>\<open>networkx.Graph\<close>, a dictionary of
  entities and a list of relationships. Python dictionaries keep insertion order, and
  both the degree pass and the cycle search iterate in that order, so a dictionary is
  an association list whose keys are kept distinct by \<open>dict_set\<close>.

  Attribute values are JSON scalars or values of the configuration tables; the
  \<^verbatim>\<open>risk_factor\<close> entries are the only numbers, written as exact reals.
\<close>

datatype pyval = PStr string | PNum real

type_synonym attrs = "(string \<times> pyval) list"

datatype error = KeyError string | TypeError string

text \<open>\<^verbatim>\<open>d[k] = v\<close>: an existing key keeps its position, a new key goes last.\<close>

fun dict_set :: "('k \<times> 'v) list \<Rightarrow> 'k \<Rightarrow> 'v \<Rightarrow> ('k \<times> 'v) list" where
  "dict_set [] k v = [(k, v)]"
| "dict_set ((k', v') # d) k v = (if k' = k then (k, v) # d else (k', v') # dict_set d k v)"

text \<open>\<^verbatim>\<open>d.update(other)\<close>: the items of \<open>other\<close> are stored one by one.\<close>

definition dict_update :: "('k \<times> 'v) list \<Rightarrow> ('k \<times> 'v) list \<Rightarrow> ('k \<times> 'v) list" where
  "dict_update d other = foldl (\<lambda>acc (k, v). dict_set acc k v) d other"

text \<open>
  A call \<^verbatim>\<open>f(pos, **star, k1=v1, ...)\<close>. Python first builds the keyword
  dictionary: the items of \<open>star\<close>, then the explicit keywords in the order written,
  and the first explicit keyword that is already a key of \<open>star\<close> raises
  \<^verbatim>\<open>TypeError\<close>. Then the call binds the parameters, and the first key of the
  dictionary that names a positional parameter of \<open>f\<close> raises \<^verbatim>\<open>TypeError\<close>.
  Otherwise \<open>f\<close> receives the keywords in that order.
\<close>

definition kwargs :: "string list \<Rightarrow> attrs \<Rightarrow> attrs \<Rightarrow> error + attrs" where
  "kwargs params star explicit =
     (case find (\<lambda>k. k \<in> fst ` set star) (map fst explicit) of
        Some k \<Rightarrow> Inl (TypeError k)
      | None \<Rightarrow>
          (case find (\<lambda>k. k \<in> set params) (map fst (star @ explicit)) of
             Some k \<Rightarrow> Inl (TypeError k)
           | None \<Rightarrow> Inr (star @ explicit)))"

section \<open>The configuration tables of config.py\<close>

text \<open>
  The display label \<^verbatim>\<open>name\<close> of each table entry is read only by the visualisation
  and is left out; the other fields are as in \<^verbatim>\<open>config.py\<close>.
\<close>

record entity_config =
  ec_color :: string
  ec_icon :: string

record relationship_config =
  rc_risk_factor :: real
  rc_color :: string

definition ENTITY_TYPES :: "(string \<times> entity_config) list" where
  "ENTITY_TYPES =
     [(''funcionario'', \<lparr>ec_color = ''#FF6B6B'', ec_icon = ''user''\<rparr>),
      (''empresa'', \<lparr>ec_color = ''#4ECDC4'', ec_icon = ''building''\<rparr>),
      (''beneficiario'', \<lparr>ec_color = ''#45B7D1'', ec_icon = ''user-check''\<rparr>),
      (''ppe'', \<lparr>ec_color = ''#96CEB4'', ec_icon = ''user-star''\<rparr>)]"

definition RELATIONSHIP_TYPES :: "(string \<times> relationship_config) list" where
  "RELATIONSHIP_TYPES =
     [(''familiar'', \<lparr>rc_risk_factor = 8 / 10, rc_color = ''#FF0000''\<rparr>),
      (''comercial'', \<lparr>rc_risk_factor = 6 / 10, rc_color = ''#00FF00''\<rparr>),
      (''politica'', \<lparr>rc_risk_factor = 7 / 10, rc_color = ''#0000FF''\<rparr>),
      (''beneficio'', \<lparr>rc_risk_factor = 5 / 10, rc_color = ''#FFFF00''\<rparr>)]"

definition min_cycle_length :: nat where
  "min_cycle_length = 3"

definition max_degree_std :: real where
  "max_degree_std = 2"

text \<open>
  \<^verbatim>\<open>ENTITY_TYPES.get(entity_type, ENTITY_TYPES["otro"])\<close>: Python evaluates the
  arguments of a call before the call, so the subscript \<^verbatim>\<open>ENTITY_TYPES["otro"]\<close> is
  evaluated first and raises \<^verbatim>\<open>KeyError\<close> when the table has no such key; only then
  is the requested type looked up, with that entry as the default.
\<close>

definition get_entity_config :: "string \<Rightarrow> error + entity_config" where
  "get_entity_config entity_type =
     (case map_of ENTITY_TYPES ''otro'' of
        None \<Rightarrow> Inl (KeyError ''otro'')
      | Some dflt \<Rightarrow>
          Inr (case map_of ENTITY_TYPES entity_type of None \<Rightarrow> dflt | Some c \<Rightarrow> c))"

definition get_relationship_config :: "string \<Rightarrow> error + relationship_config" where
  "get_relationship_config relationship_type =
     (case map_of RELATIONSHIP_TYPES ''otro'' of
        None \<Rightarrow> Inl (KeyError ''otro'')
      | Some dflt \<Rightarrow>
          Inr (case map_of RELATIONSHIP_TYPES relationship_type of None \<Rightarrow> dflt | Some c \<Rightarrow> c))"

section \<open>The graph of the networkx library\<close>

text \<open>
  \<^verbatim>\<open>networkx.Graph\<close> is the library's simple undirected graph. It holds two
  dictionaries with the same keys in the same order, the node attributes and the
  adjacency; one entry per node carries both here. The adjacency of a node maps each
  neighbour to the attribute dictionary of the edge, so a pair of nodes is joined by at
  most one edge. The operations follow the library: \<^verbatim>\<open>add_node\<close> and \<^verbatim>\<open>add_edge\<close>
  update the attributes of a node or edge that is already there, \<^verbatim>\<open>add_edge\<close>
  creates the end points it does not find, and the degree of a node is the number of its
  neighbours, a self-loop counting twice.
\<close>

record nx_entry =
  n_attr :: attrs
  n_adj :: "(string \<times> attrs) list"

type_synonym nx_graph = "(string \<times> nx_entry) list"

definition add_node :: "nx_graph \<Rightarrow> string \<Rightarrow> attrs \<Rightarrow> nx_graph" where
  "add_node g n attr =
     (case map_of g n of
        None \<Rightarrow> g @ [(n, \<lparr>n_attr = dict_update [] attr, n_adj = []\<rparr>)]
      | Some e \<Rightarrow> dict_set g n (e\<lparr>n_attr := dict_update (n_attr e) attr\<rparr>))"

definition ensure_node :: "nx_graph \<Rightarrow> string \<Rightarrow> nx_graph" where
  "ensure_node g n =
     (case map_of g n of None \<Rightarrow> g @ [(n, \<lparr>n_attr = [], n_adj = []\<rparr>)] | Some e \<Rightarrow> g)"

definition set_adj :: "nx_graph \<Rightarrow> string \<Rightarrow> string \<Rightarrow> attrs \<Rightarrow> nx_graph" where
  "set_adj g u v d =
     (case map_of g u of
        None \<Rightarrow> g
      | Some e \<Rightarrow> dict_set g u (e\<lparr>n_adj := dict_set (n_adj e) v d\<rparr>))"

definition add_edge :: "nx_graph \<Rightarrow> string \<Rightarrow> string \<Rightarrow> attrs \<Rightarrow> nx_graph" where
  "add_edge g u v attr =
     (let g1 = ensure_node (ensure_node g u) v;
          old = (case map_of g1 u of
                   None \<Rightarrow> []
                 | Some e \<Rightarrow> (case map_of (n_adj e) v of None \<Rightarrow> [] | Some d \<Rightarrow> d));
          datadict = dict_update old attr
      in set_adj (set_adj g1 u v datadict) v u datadict)"

definition degree_of :: "string \<Rightarrow> nx_entry \<Rightarrow> nat" where
  "degree_of n e = length (n_adj e) + (if n \<in> fst ` set (n_adj e) then 1 else 0)"

text \<open>\<^verbatim>\<open>G.degree()\<close> yields the pairs of node and degree in node order.\<close>

definition degree :: "nx_graph \<Rightarrow> (string \<times> nat) list" where
  "degree g = map (\<lambda>(n, e). (n, degree_of n e)) g"

section \<open>The analyzer state and _update_graph\<close>

record entity =
  e_id :: string
  e_name :: string
  e_type :: string
  e_attributes :: attrs

record relationship =
  r_source :: string
  r_target :: string
  r_type :: string
  r_attributes :: attrs

record analysis_result =
  res_entities :: "entity list"
  res_relationships :: "relationship list"

record analyzer =
  graph :: nx_graph
  entities :: "(string \<times> entity) list"
  relationships :: "relationship list"

definition init :: analyzer where
  "init = \<lparr>graph = [], entities = [], relationships = []\<rparr>"

text \<open>
  What the body of each loop of \<^verbatim>\<open>_update_graph\<close> stores once its keyword
  arguments are there: the node and the entity, the edge and the relationship.
\<close>

definition store_entity :: "analyzer \<Rightarrow> entity \<Rightarrow> attrs \<Rightarrow> analyzer" where
  "store_entity st e attr =
     st\<lparr>graph := add_node (graph st) (e_id e) attr,
        entities := dict_set (entities st) (e_id e) e\<rparr>"

definition store_relationship :: "analyzer \<Rightarrow> relationship \<Rightarrow> attrs \<Rightarrow> analyzer" where
  "store_relationship st rel attr =
     st\<lparr>graph := add_edge (graph st) (r_source rel) (r_target rel) attr,
        relationships := relationships st @ [rel]\<rparr>"

text \<open>
  The two loops mutate the analyzer in place and the \<^verbatim>\<open>except\<close> clause re-raises, so
  the result is the exception, if any, together with the analyzer as the exception left
  it. An entity and a relationship are records: the keys that \<^verbatim>\<open>_update_graph\<close>
  reads are taken to be present.
\<close>

fun add_entities :: "analyzer \<Rightarrow> entity list \<Rightarrow> error option \<times> analyzer" where
  "add_entities st [] = (None, st)"
| "add_entities st (e # es) =
     (case get_entity_config (e_type e) of
        Inl err \<Rightarrow> (Some err, st)
      | Inr entity_config \<Rightarrow>
          (case kwargs [''self'', ''node_for_adding''] (e_attributes e)
                  [(''node_type'', PStr (e_type e)), (''name'', PStr (e_name e)),
                   (''color'', PStr (ec_color entity_config)),
                   (''icon'', PStr (ec_icon entity_config))] of
             Inl err \<Rightarrow> (Some err, st)
           | Inr attr \<Rightarrow> add_entities (store_entity st e attr) es))"

fun add_relationships :: "analyzer \<Rightarrow> relationship list \<Rightarrow> error option \<times> analyzer" where
  "add_relationships st [] = (None, st)"
| "add_relationships st (rel # rels) =
     (case get_relationship_config (r_type rel) of
        Inl err \<Rightarrow> (Some err, st)
      | Inr rel_config \<Rightarrow>
          (case kwargs [''self'', ''u_of_edge'', ''v_of_edge''] (r_attributes rel)
                  [(''relationship_type'', PStr (r_type rel)),
                   (''color'', PStr (rc_color rel_config)),
                   (''risk_factor'', PNum (rc_risk_factor rel_config))] of
             Inl err \<Rightarrow> (Some err, st)
           | Inr attr \<Rightarrow> add_relationships (store_relationship st rel attr) rels))"

definition update_graph :: "analyzer \<Rightarrow> analysis_result \<Rightarrow> error option \<times> analyzer" where
  "update_graph st analysis_result =
     (case add_entities st (res_entities analysis_result) of
        (Some err, st') \<Rightarrow> (Some err, st')
      | (None, st') \<Rightarrow> add_relationships st' (res_relationships analysis_result))"




section \<open>The cycle basis of the networkx library\<close>

text \<open>
  \<^verbatim>\<open>networkx.cycle_basis\<close> is followed loop by loop, in the version of the library
  that keeps the unvisited nodes in an ordered dictionary: the root of each component is
  the last unvisited node, the search pops the last node of \<open>stack\<close> and walks its
  neighbours in adjacency order; a neighbour seen before closes a cycle, which is
  collected by following \<open>pred\<close> from the node towards the root until a node of
  \<open>used[nbr]\<close> is met. That walk is the one loop without an evident bound, so it is a
  partial function and a walk that never ends is the outcome \<open>Diverges\<close>.
\<close>

datatype 'a outcome = Returns 'a | Raises error | Diverges

record dfs =
  stack :: "string list"
  pred :: "string \<rightharpoonup> string"
  used :: "string \<rightharpoonup> string set"
  cycles :: "string list list"

partial_function (option) walk_pred ::
  "(string \<rightharpoonup> string) \<Rightarrow> string set \<Rightarrow> string \<Rightarrow> string list \<Rightarrow> (error + string list) option" where
  "walk_pred prd pn p cycle =
     (if p \<in> pn then Some (Inr (cycle @ [p]))
      else (case prd p of
              None \<Rightarrow> Some (Inl (KeyError p))
            | Some q \<Rightarrow> walk_pred prd pn q (cycle @ [p])))"

declare walk_pred.simps [code]

fun visit_nbrs :: "string \<Rightarrow> string set \<Rightarrow> string list \<Rightarrow> dfs \<Rightarrow> dfs outcome" where
  "visit_nbrs z zused [] s = Returns s"
| "visit_nbrs z zused (nbr # nbrs) s =
     (case used s nbr of
        None \<Rightarrow>
          visit_nbrs z zused nbrs
            (s\<lparr>pred := (pred s)(nbr \<mapsto> z), stack := stack s @ [nbr],
               used := (used s)(nbr \<mapsto> {z})\<rparr>)
      | Some pn \<Rightarrow>
          if nbr = z then visit_nbrs z zused nbrs (s\<lparr>cycles := cycles s @ [[z]]\<rparr>)
          else if nbr \<notin> zused then
            (case pred s z of
               None \<Rightarrow> Raises (KeyError z)
             | Some p \<Rightarrow>
                 (case walk_pred (pred s) pn p [nbr, z] of
                    None \<Rightarrow> Diverges
                  | Some (Inl err) \<Rightarrow> Raises err
                  | Some (Inr cycle) \<Rightarrow>
                      visit_nbrs z zused nbrs
                        (s\<lparr>cycles := cycles s @ [cycle],
                           used := (used s)(nbr \<mapsto> insert z pn)\<rparr>)))
          else visit_nbrs z zused nbrs s)"

definition all_nbrs :: "nx_graph \<Rightarrow> string set" where
  "all_nbrs G = (\<Union>(n, e) \<in> set G. fst ` set (n_adj e))"

lemma visit_nbrs_progress:
  "visit_nbrs z zused nbrs s = Returns s' \<Longrightarrow>
   dom (used s) \<subseteq> dom (used s') \<and>
   ((stack s' = stack s \<and> dom (used s') = dom (used s)) \<or>
    (\<exists>x \<in> set nbrs. x \<notin> dom (used s) \<and> x \<in> dom (used s')))"
proof (induction nbrs arbitrary: s)
  case Nil
  then show ?case by simp
next
  case (Cons nbr nbrs)
  show ?case
  proof (cases "used s nbr")
    case None
    let ?s1 = "s\<lparr>pred := (pred s)(nbr \<mapsto> z), stack := stack s @ [nbr],
               used := (used s)(nbr \<mapsto> {z})\<rparr>"
    from Cons.prems None have "visit_nbrs z zused nbrs ?s1 = Returns s'" by simp
    from Cons.IH[OF this] have sub: "dom (used ?s1) \<subseteq> dom (used s')" by blast
    have d: "dom (used ?s1) = insert nbr (dom (used s))" by simp
    from None have nin: "nbr \<notin> dom (used s)" by (simp add: dom_def)
    from sub d nin show ?thesis by (metis insert_subset list.set_intros(1))
  next
    case (Some pn)
    show ?thesis
    proof (cases "nbr = z")
      case True
      with Cons.prems Some
      have "visit_nbrs z zused nbrs (s\<lparr>cycles := cycles s @ [[z]]\<rparr>) = Returns s'" by simp
      from Cons.IH[OF this] show ?thesis by auto
    next
      case False
      show ?thesis
      proof (cases "nbr \<in> zused")
        case True
        with Cons.prems Some False have "visit_nbrs z zused nbrs s = Returns s'" by simp
        from Cons.IH[OF this] show ?thesis by auto
      next
        case nin: False
        from Cons.prems Some False nin obtain cycle where
          run: "visit_nbrs z zused nbrs
             (s\<lparr>cycles := cycles s @ [cycle], used := (used s)(nbr \<mapsto> insert z pn)\<rparr>) = Returns s'"
          by (auto split: option.splits sum.splits)
        let ?s1 = "s\<lparr>cycles := cycles s @ [cycle], used := (used s)(nbr \<mapsto> insert z pn)\<rparr>"
        from Some have d: "dom (used ?s1) = dom (used s)"
          by (auto simp: dom_def)
        have st: "stack ?s1 = stack s" by simp
        from Cons.IH[OF run] have
          "dom (used ?s1) \<subseteq> dom (used s') \<and>
           ((stack s' = stack ?s1 \<and> dom (used s') = dom (used ?s1)) \<or>
            (\<exists>x \<in> set nbrs. x \<notin> dom (used ?s1) \<and> x \<in> dom (used s')))" .
        then have
          "dom (used s) \<subseteq> dom (used s') \<and>
           ((stack s' = stack s \<and> dom (used s') = dom (used s)) \<or>
            (\<exists>x \<in> set nbrs. x \<notin> dom (used s) \<and> x \<in> dom (used s')))"
          unfolding d st .
        then show ?thesis by auto
      qed
    qed
  qed
qed

lemma finite_all_nbrs: "finite (all_nbrs G)"
  by (auto simp: all_nbrs_def)

function dfs_loop :: "nx_graph \<Rightarrow> dfs \<Rightarrow> dfs outcome" where
  "dfs_loop G s =
     (if stack s = [] then Returns s
      else
        (case used s (last (stack s)) of
           None \<Rightarrow> Raises (KeyError (last (stack s)))
         | Some zused \<Rightarrow>
             (case map_of G (last (stack s)) of
                None \<Rightarrow> Raises (KeyError (last (stack s)))
              | Some e \<Rightarrow>
                  (case visit_nbrs (last (stack s)) zused (map fst (n_adj e))
                          (s\<lparr>stack := butlast (stack s)\<rparr>) of
                     Returns s' \<Rightarrow> dfs_loop G s'
                   | Raises err \<Rightarrow> Raises err
                   | Diverges \<Rightarrow> Diverges))))"
  by pat_completeness auto

termination dfs_loop
proof (relation "inv_image (less_than <*lex*> less_than)
         (\<lambda>(G, s). (card (all_nbrs G - dom (used s)), length (stack s)))", goal_cases)
  case 1
  then show ?case by (intro wf_inv_image wf_lex_prod wf_less_than)
next
  case (2 G s zused e s')
  let ?s1 = "s\<lparr>stack := butlast (stack s)\<rparr>"
  from 2(3) have sub: "fst ` set (n_adj e) \<subseteq> all_nbrs G"
    by (force simp: all_nbrs_def dest: map_of_SomeD)
  from visit_nbrs_progress[OF 2(4)] have
    mono: "dom (used s) \<subseteq> dom (used s')" and
    alt: "(stack s' = butlast (stack s) \<and> dom (used s') = dom (used s)) \<or>
          (\<exists>x \<in> fst ` set (n_adj e). x \<notin> dom (used s) \<and> x \<in> dom (used s'))"
    by auto
  from alt show ?case
  proof
    assume "stack s' = butlast (stack s) \<and> dom (used s') = dom (used s)"
    with 2(1) show ?thesis by (cases "stack s" rule: rev_cases) auto
  next
    assume "\<exists>x \<in> fst ` set (n_adj e). x \<notin> dom (used s) \<and> x \<in> dom (used s')"
    then obtain x where x: "x \<in> fst ` set (n_adj e)" "x \<notin> dom (used s)" "x \<in> dom (used s')"
      by blast
    have "all_nbrs G - dom (used s') \<subset> all_nbrs G - dom (used s)"
      using x sub mono by blast
    then have "card (all_nbrs G - dom (used s')) < card (all_nbrs G - dom (used s))"
      by (intro psubset_card_mono) (auto simp: finite_all_nbrs)
    then show ?thesis by simp
  qed
qed

function components_loop :: "nx_graph \<Rightarrow> string list \<Rightarrow> string list list \<Rightarrow> string list list outcome" where
  "components_loop G gnodes cyc =
     (if gnodes = [] then Returns cyc
      else
        (case dfs_loop G \<lparr>stack = [last gnodes], pred = [last gnodes \<mapsto> last gnodes],
                          used = [last gnodes \<mapsto> {}], cycles = cyc\<rparr> of
           Returns s \<Rightarrow>
             components_loop G (filter (\<lambda>n. pred s n = None) (butlast gnodes)) (cycles s)
         | Raises err \<Rightarrow> Raises err
         | Diverges \<Rightarrow> Diverges))"
  by pat_completeness auto
termination components_loop
proof (relation "measure (\<lambda>(G, gnodes, cyc). length gnodes)", goal_cases)
  case 1
  then show ?case by simp
next
  case (2 G gnodes cyc s)
  have "length (filter (\<lambda>n. pred s n = None) (butlast gnodes)) \<le> length (butlast gnodes)"
    by (rule length_filter_le)
  moreover from 2(1) have "length (butlast gnodes) < length gnodes" by simp
  ultimately show ?case by simp
qed

definition cycle_basis :: "nx_graph \<Rightarrow> string list list outcome" where
  "cycle_basis G = components_loop G (map fst G) []"

section \<open>detect_suspicious_patterns\<close>

text \<open>
  A finding is one of the two dictionaries the detector appends. The fields that are the
  same in every finding of a kind (\<^verbatim>\<open>type\<close>, \<^verbatim>\<open>risk_level\<close>, \<^verbatim>\<open>description\<close>)
  are the constructor; \<^verbatim>\<open>nodes\<close>, and \<^verbatim>\<open>node\<close> with \<^verbatim>\<open>degree\<close>, are its arguments.
  The entity types of the specification are the tags of the code: an official is a
  \<^verbatim>\<open>funcionario\<close>, a contractor company an \<^verbatim>\<open>empresa\<close>.
\<close>

datatype finding =
    Ciclo_sospechoso "string list"
  | Concentracion_contratos string nat

text \<open>
  \<^verbatim>\<open>[self.entities[node]['type'] for node in cycle]\<close>: the first node without an
  entity raises \<^verbatim>\<open>KeyError\<close>.
\<close>

fun cycle_types :: "(string \<times> entity) list \<Rightarrow> string list \<Rightarrow> error + string list" where
  "cycle_types ents [] = Inr []"
| "cycle_types ents (node # cycle) =
     (case map_of ents node of
        None \<Rightarrow> Inl (KeyError node)
      | Some e \<Rightarrow>
          (case cycle_types ents cycle of
             Inl err \<Rightarrow> Inl err
           | Inr ts \<Rightarrow> Inr (e_type e # ts)))"

fun cycle_patterns ::
  "nat \<Rightarrow> (string \<times> entity) list \<Rightarrow> string list list \<Rightarrow> finding list \<Rightarrow> error + finding list" where
  "cycle_patterns m ents [] suspicious_patterns = Inr suspicious_patterns"
| "cycle_patterns m ents (cycle # rest) suspicious_patterns =
     (if length cycle \<ge> m then
        (case cycle_types ents cycle of
           Inl err \<Rightarrow> Inl err
         | Inr ts \<Rightarrow>
             if ''funcionario'' \<in> set ts \<and> ''empresa'' \<in> set ts
             then cycle_patterns m ents rest (suspicious_patterns @ [Ciclo_sospechoso cycle])
             else cycle_patterns m ents rest suspicious_patterns)
      else cycle_patterns m ents rest suspicious_patterns)"

text \<open>
  The dictionary comprehension over \<^verbatim>\<open>self.graph.degree()\<close> that keeps the nodes
  whose entity is an \<^verbatim>\<open>empresa\<close>.
\<close>

fun empresa_degrees ::
  "(string \<times> entity) list \<Rightarrow> (string \<times> nat) list \<Rightarrow> (string \<times> nat) list \<Rightarrow>
   error + (string \<times> nat) list" where
  "empresa_degrees ents [] d = Inr d"
| "empresa_degrees ents ((node, deg) # rest) d =
     (case map_of ents node of
        None \<Rightarrow> Inl (KeyError node)
      | Some e \<Rightarrow>
          if e_type e = ''empresa'' then empresa_degrees ents rest (dict_set d node deg)
          else empresa_degrees ents rest d)"

text \<open>
  Mean and population standard deviation of the degrees. Python computes them in
  double precision; the model computes them in the reals, which is what the
  specification's description of the threshold says. The two agree where the doubles
  are exact, as they are for equal degrees and for the degrees 1, 1, 1, 1 and 10; where
  a real threshold falls on a degree and the doubles round below it (the degrees
  4, 4, 4, 4 and 25 are such a case), the code flags a company that the model does not.
  The statements below about the threshold are about those exact cases.
\<close>

definition mean_degree :: "(string \<times> nat) list \<Rightarrow> real" where
  "mean_degree d = real (sum_list (map snd d)) / real (length d)"

definition std_degree :: "(string \<times> nat) list \<Rightarrow> real" where
  "std_degree d =
     sqrt (sum_list (map (\<lambda>x. (real x - mean_degree d) ^ 2) (map snd d)) / real (length d))"

definition threshold :: "real \<Rightarrow> (string \<times> nat) list \<Rightarrow> real" where
  "threshold k d = mean_degree d + k * std_degree d"

definition concentration_patterns :: "real \<Rightarrow> (string \<times> nat) list \<Rightarrow> finding list" where
  "concentration_patterns k d =
     (if d = [] then []
      else map (\<lambda>(empresa, deg). Concentracion_contratos empresa deg)
             (filter (\<lambda>(empresa, deg). real deg > threshold k d) d))"

text \<open>
  The statements of the detector, with the two thresholds it reads. \<^verbatim>\<open>app.py\<close> has
  the same statements with the literals 3 and 2 for the thresholds.
\<close>

definition detect_body :: "nat \<Rightarrow> real \<Rightarrow> analyzer \<Rightarrow> finding list outcome" where
  "detect_body m k st =
     (case cycle_basis (graph st) of
        Diverges \<Rightarrow> Diverges
      | Raises err \<Rightarrow> Raises err
      | Returns basis \<Rightarrow>
          (case cycle_patterns m (entities st) basis [] of
             Inl err \<Rightarrow> Raises err
           | Inr suspicious_patterns \<Rightarrow>
               (case empresa_degrees (entities st) (degree (graph st)) [] of
                  Inl err \<Rightarrow> Raises err
                | Inr d \<Rightarrow> Returns (suspicious_patterns @ concentration_patterns k d))))"

text \<open>
  \<^verbatim>\<open>main.py\<close>: the thresholds come from \<^verbatim>\<open>config.risk_thresholds\<close>, and the
  \<^verbatim>\<open>except\<close> clause turns every exception into the empty list.
\<close>

definition detect_suspicious_patterns :: "analyzer \<Rightarrow> finding list outcome" where
  "detect_suspicious_patterns st =
     (case detect_body min_cycle_length max_degree_std st of
        Raises err \<Rightarrow> Returns []
      | Returns suspicious_patterns \<Rightarrow> Returns suspicious_patterns
      | Diverges \<Rightarrow> Diverges)"

section \<open>Vocabulary of the statements\<close>

text \<open>The neighbours of a node, in adjacency order; a node not in the graph has none.\<close>

definition neighbors :: "nx_graph \<Rightarrow> string \<Rightarrow> string list" where
  "neighbors g n = (case map_of g n of None \<Rightarrow> [] | Some e \<Rightarrow> map fst (n_adj e))"

text \<open>What the degrees depend on: each node with the names of its neighbours.\<close>

definition shape :: "nx_graph \<Rightarrow> (string \<times> string list) list" where
  "shape g = map (\<lambda>(n, e). (n, map fst (n_adj e))) g"

text \<open>The nodes of the graph whose entity is an \<^verbatim>\<open>empresa\<close>, with their degrees.\<close>

definition is_empresa :: "analyzer \<Rightarrow> string \<Rightarrow> bool" where
  "is_empresa st n = (case map_of (entities st) n of None \<Rightarrow> False | Some e \<Rightarrow> e_type e = ''empresa'')"

definition company_degrees :: "analyzer \<Rightarrow> (string \<times> nat) list" where
  "company_degrees st = filter (\<lambda>(n, deg). is_empresa st n) (degree (graph st))"

definition type_of_node :: "analyzer \<Rightarrow> string \<Rightarrow> string option" where
  "type_of_node st n = map_option e_type (map_of (entities st) n)"



definition edge_attr :: "nx_graph \<Rightarrow> string \<Rightarrow> string \<Rightarrow> attrs option" where
  "edge_attr g u v = (case map_of g u of None \<Rightarrow> None | Some e \<Rightarrow> map_of (n_adj e) v)"






section \<open>Example states\<close>

definition mk_entity :: "string \<Rightarrow> string \<Rightarrow> entity" where
  "mk_entity i t = \<lparr>e_id = i, e_name = i, e_type = t, e_attributes = []\<rparr>"

definition with_nodes :: "nx_graph \<Rightarrow> string list \<Rightarrow> nx_graph" where
  "with_nodes g ns = foldl (\<lambda>acc n. add_node acc n []) g ns"

definition with_edges :: "nx_graph \<Rightarrow> (string \<times> string) list \<Rightarrow> nx_graph" where
  "with_edges g es = foldl (\<lambda>acc (u, v). add_edge acc u v []) g es"

text \<open>The triangle A, B, C with one company between two officials.\<close>

definition triangle_graph :: nx_graph where
  "triangle_graph =
     with_edges (with_nodes [] [''A'', ''B'', ''C''])
       [(''A'', ''B''), (''B'', ''C''), (''C'', ''A'')]"

definition triangle :: analyzer where
  "triangle =
     \<lparr>graph = triangle_graph,
      entities = [(''A'', mk_entity ''A'' ''funcionario''), (''B'', mk_entity ''B'' ''empresa''),
                  (''C'', mk_entity ''C'' ''funcionario'')],
      relationships = []\<rparr>"

text \<open>The same triangle with three officials.\<close>

definition official_triangle :: analyzer where
  "official_triangle =
     \<lparr>graph = triangle_graph,
      entities = [(''A'', mk_entity ''A'' ''funcionario''), (''B'', mk_entity ''B'' ''funcionario''),
                  (''C'', mk_entity ''C'' ''funcionario'')],
      relationships = []\<rparr>"

text \<open>
  Five companies of degrees 1, 1, 1, 1 and 10: the company H is joined to the other
  four and to six officials.
\<close>

definition hub_graph :: nx_graph where
  "hub_graph =
     with_edges
       (with_nodes [] [''c1'', ''c2'', ''c3'', ''c4'', ''H'',
                       ''o1'', ''o2'', ''o3'', ''o4'', ''o5'', ''o6''])
       [(''H'', ''c1''), (''H'', ''c2''), (''H'', ''c3''), (''H'', ''c4''),
        (''H'', ''o1''), (''H'', ''o2''), (''H'', ''o3''), (''H'', ''o4''),
        (''H'', ''o5''), (''H'', ''o6'')]"

definition hub :: analyzer where
  "hub =
     \<lparr>graph = hub_graph,
      entities =
        map (\<lambda>n. (n, mk_entity n ''empresa'')) [''c1'', ''c2'', ''c3'', ''c4'', ''H''] @
        map (\<lambda>n. (n, mk_entity n ''funcionario'')) [''o1'', ''o2'', ''o3'', ''o4'', ''o5'', ''o6''],
      relationships = []\<rparr>"

text \<open>A graph of two components: an isolated company and an edge between two officials.\<close>

definition two_components :: analyzer where
  "two_components =
     \<lparr>graph = with_edges (with_nodes [] [''X'', ''Y'', ''Z'']) [(''Y'', ''Z'')],
      entities = [(''X'', mk_entity ''X'' ''empresa''), (''Y'', mk_entity ''Y'' ''funcionario''),
                  (''Z'', mk_entity ''Z'' ''funcionario'')],
      relationships = []\<rparr>"

text \<open>Two relationship facts between the same pair of nodes.\<close>

definition parallel_graph :: nx_graph where
  "parallel_graph =
     add_edge
       (add_edge (with_nodes [] [''a'', ''b'']) ''a'' ''b''
          [(''relationship_type'', PStr ''comercial'')])
       ''a'' ''b'' [(''relationship_type'', PStr ''familiar'')]"

text \<open>Three companies of degree 5, each joined to five officials of its own.\<close>

definition uniform_graph :: nx_graph where
  "uniform_graph =
     with_edges (with_nodes [] [''K1'', ''K2'', ''K3''])
       [(''K1'', ''p1''), (''K1'', ''p2''), (''K1'', ''p3''), (''K1'', ''p4''), (''K1'', ''p5''),
        (''K2'', ''q1''), (''K2'', ''q2''), (''K2'', ''q3''), (''K2'', ''q4''), (''K2'', ''q5''),
        (''K3'', ''r1''), (''K3'', ''r2''), (''K3'', ''r3''), (''K3'', ''r4''), (''K3'', ''r5'')]"

definition uniform :: analyzer where
  "uniform =
     \<lparr>graph = uniform_graph,
      entities =
        map (\<lambda>n. (n, mk_entity n ''empresa'')) [''K1'', ''K2'', ''K3''] @
        map (\<lambda>n. (n, mk_entity n ''funcionario''))
          [''p1'', ''p2'', ''p3'', ''p4'', ''p5'', ''q1'', ''q2'', ''q3'', ''q4'', ''q5'',
           ''r1'', ''r2'', ''r3'', ''r4'', ''r5''],
      relationships = []\<rparr>"

text \<open>A second fact between A and B of the triangle.\<close>

definition familiar_AB :: relationship where
  "familiar_AB = \<lparr>r_source = ''A'', r_target = ''B'', r_type = ''familiar'', r_attributes = []\<rparr>"



definition ana_alcalde :: entity where
  "ana_alcalde =
     \<lparr>e_id = ''A'', e_name = ''Ana'', e_type = ''funcionario'',
      e_attributes = [(''cargo'', PStr ''alcalde''), (''partido'', PStr ''PX'')]\<rparr>"

definition ana_senadora :: entity where
  "ana_senadora =
     \<lparr>e_id = ''A'', e_name = ''Ana'', e_type = ''funcionario'',
      e_attributes = [(''cargo'', PStr ''senadora'')]\<rparr>"

definition first_batch :: analysis_result where
  "first_batch = \<lparr>res_entities = [ana_alcalde], res_relationships = []\<rparr>"

definition second_batch :: analysis_result where
  "second_batch = \<lparr>res_entities = [ana_senadora], res_relationships = []\<rparr>"

section \<open>Properties of the configuration lookups\<close>

lemma get_entity_config_raises: "get_entity_config t = Inl (KeyError ''otro'')"
  by (simp add: get_entity_config_def ENTITY_TYPES_def)

lemma get_relationship_config_raises: "get_relationship_config t = Inl (KeyError ''otro'')"
  by (simp add: get_relationship_config_def RELATIONSHIP_TYPES_def)

lemma add_entities_raises: "es \<noteq> [] \<Longrightarrow> add_entities st es = (Some (KeyError ''otro''), st)"
  by (cases es) (simp_all add: get_entity_config_raises)

lemma add_relationships_raises:
  "rels \<noteq> [] \<Longrightarrow> add_relationships st rels = (Some (KeyError ''otro''), st)"
  by (cases rels) (simp_all add: get_relationship_config_raises)

lemma update_graph_raises:
  "res_entities b \<noteq> [] \<or> res_relationships b \<noteq> [] \<Longrightarrow>
   update_graph st b = (Some (KeyError ''otro''), st)"
  by (cases "res_entities b = []")
     (auto simp: update_graph_def add_entities_raises add_relationships_raises)

section \<open>Properties of the dictionary of company degrees\<close>

lemma set_dict_set: "set (dict_set d k v) \<subseteq> insert (k, v) (set d)"
  by (induction d k v rule: dict_set.induct) auto

lemma length_dict_set: "length (dict_set d k v) \<le> Suc (length d)"
  by (induction d k v rule: dict_set.induct) auto

lemma empresa_degrees_set:
  "empresa_degrees ents degs d0 = Inr d \<Longrightarrow>
   set d \<subseteq> set d0 \<union> {(n, k). (n, k) \<in> set degs \<and>
       (case map_of ents n of None \<Rightarrow> False | Some e \<Rightarrow> e_type e = ''empresa'')}"
proof (induction ents degs d0 rule: empresa_degrees.induct)
  case (1 ents d)
  then show ?case by simp
next
  case (2 ents node deg rest d0)
  show ?case
  proof (cases "map_of ents node")
    case None
    with 2(3) show ?thesis by simp
  next
    case (Some e)
    show ?thesis
    proof (cases "e_type e = ''empresa''")
      case True
      with 2(3) Some have "empresa_degrees ents rest (dict_set d0 node deg) = Inr d" by simp
      from 2(1)[OF Some True this] set_dict_set[of d0 node deg] Some True
      show ?thesis by auto
    next
      case False
      with 2(3) Some have "empresa_degrees ents rest d0 = Inr d" by simp
      from 2(2)[OF Some False this] show ?thesis by auto
    qed
  qed
qed

lemma empresa_degrees_length:
  "empresa_degrees ents degs d0 = Inr d \<Longrightarrow>
   length d \<le> length d0 + length (filter (\<lambda>(n, k).
       (case map_of ents n of None \<Rightarrow> False | Some e \<Rightarrow> e_type e = ''empresa'')) degs)"
proof (induction ents degs d0 rule: empresa_degrees.induct)
  case (1 ents d)
  then show ?case by simp
next
  case (2 ents node deg rest d0)
  show ?case
  proof (cases "map_of ents node")
    case None
    with 2(3) show ?thesis by simp
  next
    case (Some e)
    show ?thesis
    proof (cases "e_type e = ''empresa''")
      case True
      with 2(3) Some have "empresa_degrees ents rest (dict_set d0 node deg) = Inr d" by simp
      from 2(1)[OF Some True this] length_dict_set[of d0 node deg] Some True
      show ?thesis by simp
    next
      case False
      with 2(3) Some have "empresa_degrees ents rest d0 = Inr d" by simp
      from 2(2)[OF Some False this] Some False show ?thesis by simp
    qed
  qed
qed

section \<open>Properties of the degree statistics\<close>

lemma sum_list_const: "\<forall>x \<in> set xs. x = (c::nat) \<Longrightarrow> sum_list xs = length xs * c"
  by (induction xs) auto

lemma sum_list_zero: "\<forall>x \<in> set xs. f x = (0::real) \<Longrightarrow> sum_list (map f xs) = 0"
  by (induction xs) auto

lemma uniform_mean:
  assumes "d \<noteq> []" "\<forall>x \<in> set (map snd d). x = c"
  shows "mean_degree d = real c"
proof -
  have "sum_list (map snd d) = length (map snd d) * c"
    using assms(2) by (rule sum_list_const)
  moreover have "real (length d) \<noteq> 0" using assms(1) by simp
  ultimately show ?thesis by (simp add: mean_degree_def)
qed

lemma uniform_std:
  assumes "d \<noteq> []" "\<forall>x \<in> set (map snd d). x = c"
  shows "std_degree d = 0"
proof -
  have m: "mean_degree d = real c" using assms by (rule uniform_mean)
  have "sum_list (map (\<lambda>x. (real x - real c) ^ 2) (map snd d)) = 0"
    using assms(2) by (intro sum_list_zero) auto
  then show ?thesis by (simp add: std_degree_def m)
qed

lemma uniform_no_concentration:
  assumes "\<forall>x \<in> set (map snd d). x = c"
  shows "concentration_patterns k d = []"
proof (cases "d = []")
  case True
  then show ?thesis by (simp add: concentration_patterns_def)
next
  case False
  have t: "threshold k d = real c"
    by (simp add: threshold_def uniform_mean[OF False assms] uniform_std[OF False assms])
  have "filter (\<lambda>(empresa, deg). real deg > threshold k d) d = []"
    unfolding t using assms by (auto simp: filter_empty_conv)
  then show ?thesis by (simp add: concentration_patterns_def)
qed

lemma sqrt_324_25: "sqrt (324 / 25) = 18 / 5"
  by (rule real_sqrt_unique) (simp_all add: power2_eq_square)

lemma boundary_threshold:
  assumes "map snd d = [1, 1, 1, 1, 10]"
  shows "threshold 2 d = 10"
proof -
  have l: "length d = 5" using arg_cong[OF assms, of length] by simp
  have m: "mean_degree d = 14 / 5" by (simp add: mean_degree_def assms l)
  have "std_degree d = sqrt (324 / 25)"
    by (simp add: std_degree_def m assms l power2_eq_square)
  then show ?thesis by (simp add: threshold_def m sqrt_324_25)
qed

lemma boundary_no_concentration:
  assumes "map snd d = [1, 1, 1, 1, 10]"
  shows "concentration_patterns 2 d = []"
proof -
  have "\<forall>x \<in> set (map snd d). x \<le> 10" unfolding assms by simp
  then have "filter (\<lambda>(empresa, deg). real deg > threshold 2 d) d = []"
    unfolding boundary_threshold[OF assms] by (fastforce simp: filter_empty_conv)
  then show ?thesis by (simp add: concentration_patterns_def)
qed

section \<open>Properties of the cycle filter\<close>

lemma cycle_types_sound:
  "cycle_types ents ns = Inr ts \<Longrightarrow> t \<in> set ts \<Longrightarrow>
   \<exists>n \<in> set ns. map_option e_type (map_of ents n) = Some t"
proof (induction ns arbitrary: ts)
  case Nil
  then show ?case by simp
next
  case (Cons n ns)
  from Cons.prems(1) obtain e ts' where
    e: "map_of ents n = Some e" and ts': "cycle_types ents ns = Inr ts'" and
    ts: "ts = e_type e # ts'"
    by (auto split: option.splits sum.splits)
  show ?case
  proof (cases "t = e_type e")
    case True
    with e show ?thesis by auto
  next
    case False
    with Cons.prems(2) ts have "t \<in> set ts'" by simp
    from Cons.IH[OF ts' this] show ?thesis by auto
  qed
qed

lemma cycle_patterns_sound:
  "cycle_patterns m ents cs acc = Inr fs \<Longrightarrow> Ciclo_sospechoso ns \<in> set fs \<Longrightarrow>
   Ciclo_sospechoso ns \<in> set acc \<or>
   (ns \<in> set cs \<and> m \<le> length ns \<and>
    (\<exists>ts. cycle_types ents ns = Inr ts \<and> ''funcionario'' \<in> set ts \<and> ''empresa'' \<in> set ts))"
proof (induction m ents cs acc rule: cycle_patterns.induct)
  case (1 m ents suspicious_patterns)
  then show ?case by simp
next
  case (2 m ents cycle rest acc)
  show ?case
  proof (cases "m \<le> length cycle")
    case False
    with 2(4) have "cycle_patterns m ents rest acc = Inr fs" by simp
    from 2(3)[OF False this 2(5)] show ?thesis by auto
  next
    case True
    with 2(4) obtain ts where ts: "cycle_types ents cycle = Inr ts"
      by (auto split: sum.splits)
    show ?thesis
    proof (cases "''funcionario'' \<in> set ts \<and> ''empresa'' \<in> set ts")
      case both: True
      with 2(4) True ts
      have "cycle_patterns m ents rest (acc @ [Ciclo_sospechoso cycle]) = Inr fs" by simp
      from 2(1)[OF True ts both this 2(5)] True ts both show ?thesis by auto
    next
      case nb: False
      with 2(4) True ts have "cycle_patterns m ents rest acc = Inr fs" by auto
      from 2(2)[OF True ts nb this 2(5)] show ?thesis by auto
    qed
  qed
qed

lemma concentration_no_ciclo: "Ciclo_sospechoso ns \<notin> set (concentration_patterns k d)"
  by (auto simp: concentration_patterns_def)

lemma cycle_patterns_no_concentracion:
  "cycle_patterns m ents cs acc = Inr fs \<Longrightarrow> Concentracion_contratos n k \<in> set fs \<Longrightarrow>
   Concentracion_contratos n k \<in> set acc"
  by (induction m ents cs acc rule: cycle_patterns.induct)
     (auto split: if_splits sum.splits)

section \<open>Properties of the graph operations\<close>

lemma dict_set_map_existing:
  "map_of g u = Some e \<Longrightarrow> f (u, e') = f (u, e) \<Longrightarrow> map f (dict_set g u e') = map f g"
  by (induction g u e' rule: dict_set.induct) (auto split: if_splits)

lemma dict_set_keys_existing: "k \<in> fst ` set d \<Longrightarrow> map fst (dict_set d k v) = map fst d"
  by (induction d k v rule: dict_set.induct) auto

lemma map_of_dict_set: "map_of (dict_set d k v) = (map_of d)(k \<mapsto> v)"
  by (induction d k v rule: dict_set.induct) auto

lemma map_of_dict_update: "map_of (dict_update d other) = map_of d ++ map_of (rev other)"
  unfolding dict_update_def
proof (induction other arbitrary: d)
  case Nil
  then show ?case by simp
next
  case (Cons p other)
  obtain k v where p: "p = (k, v)" by (cases p)
  have "map_of (foldl (\<lambda>acc (k, v). dict_set acc k v) d (p # other))
        = map_of (dict_set d k v) ++ map_of (rev other)"
    using Cons.IH[of "dict_set d k v"] by (simp add: p)
  also have "\<dots> = map_of d ++ map_of (rev (p # other))"
    by (simp add: p map_of_dict_set map_add_upd_left)
  finally show ?case .
qed

lemma dict_set_fresh: "k \<notin> fst ` set d \<Longrightarrow> dict_set d k v = d @ [(k, v)]"
  by (induction d k v rule: dict_set.induct) auto

lemma map_of_shape: "map_of (shape g) n = map_option (\<lambda>e. map fst (n_adj e)) (map_of g n)"
  by (induction g) (auto simp: shape_def)

lemma neighbors_shape: "neighbors g n = (case map_of (shape g) n of None \<Rightarrow> [] | Some ns \<Rightarrow> ns)"
  by (simp add: neighbors_def map_of_shape split: option.splits)

lemma degree_shape:
  "degree g = map (\<lambda>(n, ns). (n, length ns + (if n \<in> set ns then 1 else 0))) (shape g)"
  by (simp add: degree_def shape_def degree_of_def case_prod_unfold)

lemma shape_set_adj:
  assumes "v \<in> set (neighbors g u)"
  shows "shape (set_adj g u v d) = shape g"
proof -
  obtain e where e: "map_of g u = Some e" and v: "v \<in> fst ` set (n_adj e)"
  proof (cases "map_of g u")
    case None
    with assms show ?thesis by (simp add: neighbors_def)
  next
    case (Some e)
    with assms have "v \<in> fst ` set (n_adj e)" by (simp add: neighbors_def)
    with Some that show ?thesis by blast
  qed
  have "map fst (n_adj (e\<lparr>n_adj := dict_set (n_adj e) v d\<rparr>)) = map fst (n_adj e)"
    using v by (simp add: dict_set_keys_existing)
  then show ?thesis
    unfolding shape_def set_adj_def using e by (simp add: dict_set_map_existing)
qed

lemma ensure_node_neighbor:
  assumes "v \<in> set (neighbors g u)"
  shows "ensure_node g u = g"
proof (cases "map_of g u")
  case None
  with assms show ?thesis by (simp add: neighbors_def)
next
  case (Some e)
  then show ?thesis by (simp add: ensure_node_def)
qed

lemma shape_add_edge:
  assumes "v \<in> set (neighbors g u)" and "u \<in> set (neighbors g v)"
  shows "shape (add_edge g u v attr) = shape g"
proof -
  define old where "old = (case map_of g u of None \<Rightarrow> []
     | Some e \<Rightarrow> (case map_of (n_adj e) v of None \<Rightarrow> [] | Some d \<Rightarrow> d))"
  define datadict where "datadict = dict_update old attr"
  have g1: "ensure_node (ensure_node g u) v = g"
    by (simp add: ensure_node_neighbor[OF assms(1)] ensure_node_neighbor[OF assms(2)])
  have ae: "add_edge g u v attr = set_adj (set_adj g u v datadict) v u datadict"
    by (simp add: add_edge_def g1 Let_def datadict_def old_def)
  have s1: "shape (set_adj g u v datadict) = shape g"
    using assms(1) by (rule shape_set_adj)
  then have "neighbors (set_adj g u v datadict) v = neighbors g v"
    by (simp add: neighbors_shape)
  with assms(2) have "u \<in> set (neighbors (set_adj g u v datadict) v)" by simp
  then have "shape (set_adj (set_adj g u v datadict) v u datadict) = shape (set_adj g u v datadict)"
    by (rule shape_set_adj)
  with s1 ae show ?thesis by simp
qed

text \<open>
  \<^verbatim>\<open>add_edge\<close> itself checks nothing: the nodes of the graph afterwards are the nodes
  before and the two end points, whether or not they were nodes.
\<close>

lemma dict_set_keys: "fst ` set (dict_set d k v) = insert k (fst ` set d)"
  by (induction d k v rule: dict_set.induct) auto

lemma ensure_node_keys: "fst ` set (ensure_node g n) = insert n (fst ` set g)"
proof (cases "map_of g n")
  case None
  then show ?thesis by (simp add: ensure_node_def)
next
  case (Some e)
  then have "n \<in> fst ` set g" by (force dest: map_of_SomeD)
  with Some show ?thesis by (auto simp: ensure_node_def)
qed

lemma set_adj_keys: "fst ` set (set_adj g u v d) = fst ` set g"
proof (cases "map_of g u")
  case None
  then show ?thesis by (simp add: set_adj_def)
next
  case (Some e)
  then have "u \<in> fst ` set g" by (force dest: map_of_SomeD)
  with Some show ?thesis by (auto simp: set_adj_def dict_set_keys)
qed

lemma add_edge_nodes: "fst ` set (add_edge g u v attr) = insert u (insert v (fst ` set g))"
  by (auto simp: add_edge_def Let_def set_adj_keys ensure_node_keys)

text \<open>The attributes of the edges when \<^verbatim>\<open>add_edge\<close> finds the edge there.\<close>

lemma if_merge: "(if P then s else if Q then s else x) = (if Q \<or> P then s else x)"
  by simp

lemma edge_attr_set_adj:
  assumes "map_of g u = Some e"
  shows "edge_attr (set_adj g u v d) a b =
         (if a = u \<and> b = v then Some d else edge_attr g a b)"
  using assms by (simp add: edge_attr_def set_adj_def map_of_dict_set)

lemma neighbors_entry:
  assumes "v \<in> set (neighbors g u)"
  obtains e old where "map_of g u = Some e" and "map_of (n_adj e) v = Some old"
proof (cases "map_of g u")
  case None
  with assms show ?thesis by (simp add: neighbors_def)
next
  case (Some e)
  with assms have "v \<in> fst ` set (n_adj e)" by (simp add: neighbors_def)
  then have "map_of (n_adj e) v \<noteq> None" by (simp add: map_of_eq_None_iff)
  then obtain old where "map_of (n_adj e) v = Some old" by blast
  with Some that show ?thesis by blast
qed

lemma add_edge_existing:
  assumes "v \<in> set (neighbors g u)" and "u \<in> set (neighbors g v)"
  shows "\<exists>old. edge_attr g u v = Some old \<and>
           add_edge g u v attr =
             set_adj (set_adj g u v (dict_update old attr)) v u (dict_update old attr)"
proof -
  from assms(1) obtain e old where e: "map_of g u = Some e" and old: "map_of (n_adj e) v = Some old"
    by (rule neighbors_entry)
  have g1: "ensure_node (ensure_node g u) v = g"
    by (simp add: ensure_node_neighbor[OF assms(1)] ensure_node_neighbor[OF assms(2)])
  have "add_edge g u v attr =
          set_adj (set_adj g u v (dict_update old attr)) v u (dict_update old attr)"
    by (simp add: add_edge_def g1 Let_def e old)
  moreover have "edge_attr g u v = Some old" by (simp add: edge_attr_def e old)
  ultimately show ?thesis by blast
qed

lemma edge_attr_add_edge_existing:
  assumes "v \<in> set (neighbors g u)" and "u \<in> set (neighbors g v)"
  shows "\<exists>old. edge_attr g u v = Some old \<and>
           (\<forall>a b. edge_attr (add_edge g u v attr) a b =
              (if (a = u \<and> b = v) \<or> (a = v \<and> b = u) then Some (dict_update old attr)
               else edge_attr g a b))"
proof -
  from add_edge_existing[OF assms, of attr] obtain old where
    old: "edge_attr g u v = Some old" and
    ae: "add_edge g u v attr =
           set_adj (set_adj g u v (dict_update old attr)) v u (dict_update old attr)"
    by blast
  from assms(1) obtain eu ou where eu: "map_of g u = Some eu"
    by (rule neighbors_entry)
  have "shape (set_adj g u v (dict_update old attr)) = shape g"
    using assms(1) by (rule shape_set_adj)
  then have "neighbors (set_adj g u v (dict_update old attr)) v = neighbors g v"
    by (simp add: neighbors_shape)
  with assms(2) have "u \<in> set (neighbors (set_adj g u v (dict_update old attr)) v)" by simp
  then obtain ev ov where ev: "map_of (set_adj g u v (dict_update old attr)) v = Some ev"
    by (rule neighbors_entry)
  have "edge_attr (add_edge g u v attr) a b =
              (if (a = u \<and> b = v) \<or> (a = v \<and> b = u) then Some (dict_update old attr)
               else edge_attr g a b)" for a b
  proof -
    define dd where "dd = dict_update old attr"
    define x where "x = edge_attr g a b"
    have 1: "edge_attr (set_adj (set_adj g u v dd) v u dd) a b =
          (if a = v \<and> b = u then Some dd else edge_attr (set_adj g u v dd) a b)"
      using ev unfolding dd_def by (rule edge_attr_set_adj)
    have 2: "edge_attr (set_adj g u v dd) a b = (if a = u \<and> b = v then Some dd else x)"
      unfolding x_def using eu by (rule edge_attr_set_adj)
    have "edge_attr (set_adj (set_adj g u v dd) v u dd) a b =
          (if (a = u \<and> b = v) \<or> (a = v \<and> b = u) then Some dd else x)"
      unfolding 1 2 by (rule if_merge)
    then show ?thesis unfolding ae dd_def x_def .
  qed
  with old show ?thesis by blast
qed

section \<open>Properties of the ingestion of app.py\<close>



























section \<open>The dictionary of company degrees of a graph with distinct nodes\<close>

lemma empresa_degrees_distinct:
  "empresa_degrees ents degs d0 = Inr d \<Longrightarrow> distinct (map fst degs) \<Longrightarrow>
   fst ` set d0 \<inter> fst ` set degs = {} \<Longrightarrow>
   d = d0 @ filter (\<lambda>(n, k).
       (case map_of ents n of None \<Rightarrow> False | Some e \<Rightarrow> e_type e = ''empresa'')) degs"
proof (induction ents degs d0 rule: empresa_degrees.induct)
  case (1 ents d)
  then show ?case by simp
next
  case (2 ents node deg rest d0)
  from 2(4) have dr: "distinct (map fst rest)" and nr: "node \<notin> fst ` set rest" by auto
  from 2(5) have nd: "node \<notin> fst ` set d0" and dj: "fst ` set d0 \<inter> fst ` set rest = {}"
    by auto
  show ?case
  proof (cases "map_of ents node")
    case None
    with 2(3) show ?thesis by simp
  next
    case (Some e)
    show ?thesis
    proof (cases "e_type e = ''empresa''")
      case True
      with 2(3) Some have r: "empresa_degrees ents rest (dict_set d0 node deg) = Inr d" by simp
      have ds: "dict_set d0 node deg = d0 @ [(node, deg)]" using nd by (rule dict_set_fresh)
      have "fst ` set (dict_set d0 node deg) \<inter> fst ` set rest = {}"
        unfolding ds using dj nr by auto
      from 2(1)[OF Some True r dr this] Some True show ?thesis by (simp add: ds)
    next
      case False
      with 2(3) Some have r: "empresa_degrees ents rest d0 = Inr d" by simp
      from 2(2)[OF Some False r dr dj] Some False show ?thesis by simp
    qed
  qed
qed

lemma empresa_degrees_company_degrees:
  assumes "empresa_degrees (entities st) (degree (graph st)) [] = Inr d"
    and "distinct (map fst (graph st))"
  shows "d = company_degrees st"
proof -
  have "map fst (degree (graph st)) = map fst (graph st)"
    by (simp add: degree_def case_prod_unfold)
  with assms(2) have "distinct (map fst (degree (graph st)))" by simp
  from empresa_degrees_distinct[OF assms(1) this] show ?thesis
    by (simp add: company_degrees_def is_empresa_def)
qed

section \<open>Evaluation of the example graphs\<close>


lemma detect_eval:
  assumes "cycle_basis (graph st) = Returns cs"
    and "cycle_patterns min_cycle_length (entities st) cs [] = Inr ps"
    and "empresa_degrees (entities st) (degree (graph st)) [] = Inr d"
  shows "detect_suspicious_patterns st = Returns (ps @ concentration_patterns max_degree_std d)"
  using assms by (simp add: detect_suspicious_patterns_def detect_body_def)

lemma triangle_cycle_basis: "cycle_basis (graph triangle) = Returns [[''B'', ''A'', ''C'']]"
  by code_simp

lemma official_cycle_basis:
  "cycle_basis (graph official_triangle) = Returns [[''B'', ''A'', ''C'']]"
  by code_simp

lemma triangle_cycle_patterns:
  "cycle_patterns min_cycle_length (entities triangle) [[''B'', ''A'', ''C'']] [] =
   Inr [Ciclo_sospechoso [''B'', ''A'', ''C'']]"
  by code_simp

lemma triangle_empresa_degrees:
  "empresa_degrees (entities triangle) (degree (graph triangle)) [] = Inr [(''B'', 2)]"
  by code_simp

lemma triangle_detect:
  "detect_suspicious_patterns triangle = Returns [Ciclo_sospechoso [''B'', ''A'', ''C'']]"
proof -
  have c: "concentration_patterns max_degree_std [(''B'', 2)] = []"
    by (rule uniform_no_concentration[where c = 2]) simp
  show ?thesis
    using detect_eval[OF triangle_cycle_basis triangle_cycle_patterns triangle_empresa_degrees]
    unfolding c by simp
qed

lemma official_cycle_patterns:
  "cycle_patterns min_cycle_length (entities official_triangle) [[''B'', ''A'', ''C'']] [] = Inr []"
  by code_simp

lemma official_empresa_degrees:
  "empresa_degrees (entities official_triangle) (degree (graph official_triangle)) [] = Inr []"
  by code_simp

lemma official_detect: "detect_suspicious_patterns official_triangle = Returns []"
proof -
  show ?thesis
    using detect_eval[OF official_cycle_basis official_cycle_patterns official_empresa_degrees]
    by (simp add: concentration_patterns_def)
qed

lemma init_detect_body: "detect_body m k init = Returns []"
proof -
  have "cycle_basis [] = Returns []" by code_simp
  then show ?thesis
    by (simp add: detect_body_def init_def degree_def concentration_patterns_def)
qed

lemma two_components_cycle_basis: "cycle_basis (graph two_components) = Returns []"
  by code_simp

lemma two_components_cycle_patterns:
  "cycle_patterns min_cycle_length (entities two_components) [] [] = Inr []"
  by simp

lemma two_components_empresa_degrees:
  "empresa_degrees (entities two_components) (degree (graph two_components)) [] = Inr [(''X'', 0)]"
  by code_simp

lemma two_components_detect: "detect_suspicious_patterns two_components = Returns []"
proof -
  have c: "concentration_patterns max_degree_std [(''X'', 0)] = []"
    by (rule uniform_no_concentration[where c = 0]) simp
  show ?thesis
    using detect_eval[OF two_components_cycle_basis two_components_cycle_patterns two_components_empresa_degrees]
    unfolding c by simp
qed

lemma hub_cycle_basis: "cycle_basis (graph hub) = Returns []"
  by code_simp

lemma hub_cycle_patterns:
  "cycle_patterns min_cycle_length (entities hub) [] [] = Inr []"
  by simp

lemma hub_empresa_degrees:
  "empresa_degrees (entities hub) (degree (graph hub)) [] =
   Inr [(''c1'', 1), (''c2'', 1), (''c3'', 1), (''c4'', 1), (''H'', 10)]"
  by code_simp

lemma hub_company_degrees:
  "company_degrees hub = [(''c1'', 1), (''c2'', 1), (''c3'', 1), (''c4'', 1), (''H'', 10)]"
  by code_simp

lemma hub_distinct: "distinct (map fst (graph hub))"
  by code_simp

lemma hub_detect: "detect_suspicious_patterns hub = Returns []"
proof -
  have c: "concentration_patterns max_degree_std
             [(''c1'', 1), (''c2'', 1), (''c3'', 1), (''c4'', 1), (''H'', 10)] = []"
    unfolding max_degree_std_def by (rule boundary_no_concentration) simp
  show ?thesis
    using detect_eval[OF hub_cycle_basis hub_cycle_patterns hub_empresa_degrees]
    unfolding c by simp
qed

lemma uniform_cycle_basis: "cycle_basis (graph uniform) = Returns []"
  by code_simp

lemma uniform_company_degrees:
  "company_degrees uniform = [(''K1'', 5), (''K2'', 5), (''K3'', 5)]"
  by code_simp

lemma uniform_cycle_patterns:
  "cycle_patterns min_cycle_length (entities uniform) [] [] = Inr []"
  by simp

lemma uniform_empresa_degrees:
  "empresa_degrees (entities uniform) (degree (graph uniform)) [] =
   Inr [(''K1'', 5), (''K2'', 5), (''K3'', 5)]"
  by code_simp

lemma uniform_detect: "detect_suspicious_patterns uniform = Returns []"
proof -
  have c: "concentration_patterns max_degree_std [(''K1'', 5), (''K2'', 5), (''K3'', 5)] = []"
    by (rule uniform_no_concentration[where c = 5]) simp
  show ?thesis
    using detect_eval[OF uniform_cycle_basis uniform_cycle_patterns uniform_empresa_degrees]
    unfolding c by simp
qed

lemma two_components_company_degrees: "company_degrees two_components = [(''X'', 0)]"
  by code_simp

lemma triangle_company_degrees: "company_degrees triangle = [(''B'', 2)]"
  by code_simp

section \<open>Properties of the detector\<close>

lemma detect_body_Returns:
  assumes "detect_body m k st = Returns fs"
  obtains cs ps d where "cycle_basis (graph st) = Returns cs"
    and "cycle_patterns m (entities st) cs [] = Inr ps"
    and "empresa_degrees (entities st) (degree (graph st)) [] = Inr d"
    and "fs = ps @ concentration_patterns k d"
  using assms by (auto simp: detect_body_def split: outcome.splits sum.splits)

lemma detect_Returns:
  assumes "detect_suspicious_patterns st = Returns fs"
  shows "fs = [] \<or> detect_body min_cycle_length max_degree_std st = Returns fs"
  using assms by (auto simp: detect_suspicious_patterns_def split: outcome.splits)

lemma detect_not_Raises: "detect_suspicious_patterns st \<noteq> Raises err"
  by (simp add: detect_suspicious_patterns_def split: outcome.splits)

lemma detect_body_ciclo:
  assumes "detect_body m k st = Returns fs" and "Ciclo_sospechoso ns \<in> set fs"
  shows "m \<le> length ns \<and>
         (\<exists>n \<in> set ns. type_of_node st n = Some ''funcionario'') \<and>
         (\<exists>n \<in> set ns. type_of_node st n = Some ''empresa'')"
proof -
  from assms(1) obtain cs ps d where
    ps: "cycle_patterns m (entities st) cs [] = Inr ps" and
    fs: "fs = ps @ concentration_patterns k d"
    by (rule detect_body_Returns)
  from assms(2) fs have "Ciclo_sospechoso ns \<in> set ps"
    by (simp add: concentration_no_ciclo)
  from cycle_patterns_sound[OF ps this] obtain ts where
    len: "m \<le> length ns" and ts: "cycle_types (entities st) ns = Inr ts" and
    f: "''funcionario'' \<in> set ts" and e: "''empresa'' \<in> set ts"
    by auto
  from cycle_types_sound[OF ts f] cycle_types_sound[OF ts e] len
  show ?thesis by (simp add: type_of_node_def)
qed

lemma detect_body_uniform:
  assumes "detect_body m k st = Returns fs"
    and "(\<forall>p \<in> set (company_degrees st). \<forall>q \<in> set (company_degrees st). snd p = snd q) \<or>
         length (company_degrees st) < 2"
  shows "Concentracion_contratos n deg \<notin> set fs"
proof -
  from assms(1) obtain cs ps d where
    ps: "cycle_patterns m (entities st) cs [] = Inr ps" and
    d: "empresa_degrees (entities st) (degree (graph st)) [] = Inr d" and
    fs: "fs = ps @ concentration_patterns k d"
    by (rule detect_body_Returns)
  have sub: "set d \<subseteq> set (company_degrees st)"
    using empresa_degrees_set[OF d] by (auto simp: company_degrees_def is_empresa_def)
  have len: "length d \<le> length (company_degrees st)"
    using empresa_degrees_length[OF d] by (simp add: company_degrees_def is_empresa_def)
  have "\<exists>c. \<forall>x \<in> set (map snd d). x = c"
  proof (cases d)
    case Nil
    then show ?thesis by simp
  next
    case (Cons p d')
    from assms(2) show ?thesis
    proof
      assume u: "\<forall>p \<in> set (company_degrees st). \<forall>q \<in> set (company_degrees st). snd p = snd q"
      have "\<forall>x \<in> set (map snd d). x = snd p"
      proof
        fix x assume "x \<in> set (map snd d)"
        then obtain q where q: "q \<in> set d" and x: "x = snd q" by auto
        from Cons have "p \<in> set d" by simp
        with q sub u have "snd q = snd p" by blast
        with x show "x = snd p" by simp
      qed
      then show ?thesis ..
    next
      assume "length (company_degrees st) < 2"
      with len Cons have "d' = []" by (cases d') auto
      with Cons show ?thesis by simp
    qed
  qed
  then obtain c where "\<forall>x \<in> set (map snd d). x = c" ..
  then have "concentration_patterns k d = []" by (rule uniform_no_concentration)
  moreover have "Concentracion_contratos n deg \<notin> set ps"
    using cycle_patterns_no_concentracion[OF ps, of n deg] by auto
  ultimately show ?thesis using fs by simp
qed

lemma detect_body_boundary:
  assumes "detect_body m 2 st = Returns fs"
    and "distinct (map fst (graph st))"
    and "map snd (company_degrees st) = [1, 1, 1, 1, 10]"
  shows "Concentracion_contratos n deg \<notin> set fs"
proof -
  from assms(1) obtain cs ps d where
    ps: "cycle_patterns m (entities st) cs [] = Inr ps" and
    d: "empresa_degrees (entities st) (degree (graph st)) [] = Inr d" and
    fs: "fs = ps @ concentration_patterns 2 d"
    by (rule detect_body_Returns)
  have "d = company_degrees st" using d assms(2) by (rule empresa_degrees_company_degrees)
  with assms(3) have "concentration_patterns 2 d = []" by (simp add: boundary_no_concentration)
  moreover have "Concentracion_contratos n deg \<notin> set ps"
    using cycle_patterns_no_concentracion[OF ps, of n deg] by auto
  ultimately show ?thesis using fs by simp
qed

section \<open>Ingestion in main.py\<close>

text \<open>
  In \<^verbatim>\<open>main.py\<close> the two stores are never reached. Ingesting the entity A twice
  into the fresh analyzer: both calls of \<^verbatim>\<open>_update_graph\<close> raise the
  \<^verbatim>\<open>KeyError\<close> of the lookup of \<^verbatim>\<open>"otro"\<close>, and afterwards neither the entities
  nor the graph hold A.
\<close>

lemma upsert_raises:
  "update_graph init first_batch = (Some (KeyError ''otro''), init) \<and>
   update_graph (snd (update_graph init first_batch)) second_batch =
     (Some (KeyError ''otro''), init) \<and>
   map_of (entities (snd (update_graph (snd (update_graph init first_batch)) second_batch))) ''A''
     = None \<and>
   map_of (graph (snd (update_graph (snd (update_graph init first_batch)) second_batch))) ''A''
     = None"
proof -
  have a: "update_graph init first_batch = (Some (KeyError ''otro''), init)"
    by (rule update_graph_raises) (simp add: first_batch_def)
  have b: "update_graph init second_batch = (Some (KeyError ''otro''), init)"
    by (rule update_graph_raises) (simp add: second_batch_def)
  show ?thesis by (simp add: a b) (simp add: init_def)
qed

section \<open>Ingestion without validation\<close>







section \<open>Storing an entity whose id is already a node\<close>

text \<open>
  C4, as amended. Storing an entity whose id is already a node and an entity adds no
  node and no entity: the node keeps its place and its neighbours, and so does the
  entry of the entity dictionary, which now holds the new entity. The attribute
  dictionary of the node is updated, not replaced: a key of the new attributes has the
  new value, every other key keeps the old one.
\<close>

theorem reingest_updates_node:
  assumes "map_of (graph st) (e_id e) = Some old" and "e_id e \<in> fst ` set (entities st)"
  shows "map fst (graph (store_entity st e attr)) = map fst (graph st) \<and>
         (\<exists>new. map_of (graph (store_entity st e attr)) (e_id e) = Some new \<and>
                n_adj new = n_adj old \<and>
                map_of (n_attr new) = map_of (n_attr old) ++ map_of (rev attr)) \<and>
         map fst (entities (store_entity st e attr)) = map fst (entities st) \<and>
         map_of (entities (store_entity st e attr)) (e_id e) = Some e"
proof -
  let ?new = "old\<lparr>n_attr := dict_update (n_attr old) attr\<rparr>"
  have g: "graph (store_entity st e attr) = dict_set (graph st) (e_id e) ?new"
    using assms(1) by (simp add: store_entity_def add_node_def)
  have k: "e_id e \<in> fst ` set (graph st)"
    using assms(1) by (force dest: map_of_SomeD)
  have "map fst (graph (store_entity st e attr)) = map fst (graph st)"
    unfolding g using k by (rule dict_set_keys_existing)
  moreover have "map_of (graph (store_entity st e attr)) (e_id e) = Some ?new"
    unfolding g by (simp add: map_of_dict_set)
  moreover have "n_adj ?new = n_adj old" by simp
  moreover have "map_of (n_attr ?new) = map_of (n_attr old) ++ map_of (rev attr)"
    by (simp add: map_of_dict_update)
  moreover have "map fst (entities (store_entity st e attr)) = map fst (entities st)"
    using assms(2) by (simp add: store_entity_def dict_set_keys_existing)
  moreover have "map_of (entities (store_entity st e attr)) (e_id e) = Some e"
    by (simp add: store_entity_def map_of_dict_set)
  ultimately show ?thesis by blast
qed

theorem reingest_updates_node_witness:
  "map_of (graph (store_entity init ana_alcalde (e_attributes ana_alcalde))) (e_id ana_senadora)
     = Some \<lparr>n_attr = e_attributes ana_alcalde, n_adj = []\<rparr> \<and>
   e_id ana_senadora \<in> fst ` set (entities (store_entity init ana_alcalde (e_attributes ana_alcalde))) \<and>
   map fst (graph (store_entity (store_entity init ana_alcalde (e_attributes ana_alcalde))
                     ana_senadora (e_attributes ana_senadora))) = [''A''] \<and>
   map fst (entities (store_entity (store_entity init ana_alcalde (e_attributes ana_alcalde))
                        ana_senadora (e_attributes ana_senadora))) = [''A''] \<and>
   map_of (entities (store_entity (store_entity init ana_alcalde (e_attributes ana_alcalde))
                       ana_senadora (e_attributes ana_senadora))) ''A'' = Some ana_senadora"
proof -
  let ?st = "store_entity init ana_alcalde (e_attributes ana_alcalde)"
  have h1: "map_of (graph ?st) (e_id ana_senadora)
              = Some \<lparr>n_attr = e_attributes ana_alcalde, n_adj = []\<rparr>"
    by code_simp
  have h2: "e_id ana_senadora \<in> fst ` set (entities ?st)"
    by code_simp
  have g: "map fst (graph ?st) = [''A'']" by code_simp
  have e: "map fst (entities ?st) = [''A'']" by code_simp
  have i: "e_id ana_senadora = ''A''" by (simp add: ana_senadora_def)
  from reingest_updates_node[OF h1 h2, of "e_attributes ana_senadora"] h1 h2
  show ?thesis unfolding g e i by blast
qed

text \<open>
  C4, as stated, fails: the node A stored first with the attributes \<^verbatim>\<open>cargo\<close> and
  \<^verbatim>\<open>partido\<close> and then with \<^verbatim>\<open>cargo\<close> alone carries the new \<^verbatim>\<open>cargo\<close> and
  still the old \<^verbatim>\<open>partido\<close>.
\<close>

theorem reingest_merges_attributes:
  "map_of (graph (store_entity (store_entity init ana_alcalde (e_attributes ana_alcalde))
                    ana_senadora (e_attributes ana_senadora))) ''A''
     = Some \<lparr>n_attr = [(''cargo'', PStr ''senadora''), (''partido'', PStr ''PX'')], n_adj = []\<rparr>"
  by code_simp

section \<open>Parallel relationship facts\<close>

text \<open>
  C5, as amended. Storing a relationship fact between two nodes that are already joined
  adds no edge: the neighbours of every node and every degree are as before. The
  attributes of the fact are merged into the attribute dictionary of the existing edge,
  seen from both end points: a key of the fact has the fact's value, every other key
  keeps its own. The attributes of every other edge are as before, and the fact is
  appended to the relationships.
\<close>

theorem parallel_fact_adds_no_edge:
  assumes "r_target rel \<in> set (neighbors (graph st) (r_source rel))"
    and "r_source rel \<in> set (neighbors (graph st) (r_target rel))"
  shows "degree (graph (store_relationship st rel attr)) = degree (graph st) \<and>
         (\<forall>n. neighbors (graph (store_relationship st rel attr)) n = neighbors (graph st) n) \<and>
         (\<exists>old. edge_attr (graph st) (r_source rel) (r_target rel) = Some old \<and>
            edge_attr (graph (store_relationship st rel attr)) (r_source rel) (r_target rel)
              = Some (dict_update old attr) \<and>
            edge_attr (graph (store_relationship st rel attr)) (r_target rel) (r_source rel)
              = Some (dict_update old attr) \<and>
            map_of (dict_update old attr) = map_of old ++ map_of (rev attr)) \<and>
         (\<forall>a b. (a, b) \<noteq> (r_source rel, r_target rel) \<longrightarrow>
                (a, b) \<noteq> (r_target rel, r_source rel) \<longrightarrow>
                edge_attr (graph (store_relationship st rel attr)) a b
                  = edge_attr (graph st) a b) \<and>
         relationships (store_relationship st rel attr) = relationships st @ [rel]"
proof -
  let ?u = "r_source rel" and ?v = "r_target rel"
  have g: "graph (store_relationship st rel attr) = add_edge (graph st) ?u ?v attr"
    by (simp add: store_relationship_def)
  have s: "shape (add_edge (graph st) ?u ?v attr) = shape (graph st)"
    using assms by (rule shape_add_edge)
  from edge_attr_add_edge_existing[OF assms, of attr] obtain old where
    old: "edge_attr (graph st) ?u ?v = Some old" and
    ea: "\<And>a b. edge_attr (add_edge (graph st) ?u ?v attr) a b =
              (if (a = ?u \<and> b = ?v) \<or> (a = ?v \<and> b = ?u) then Some (dict_update old attr)
               else edge_attr (graph st) a b)"
    by blast
  have c1: "degree (graph (store_relationship st rel attr)) = degree (graph st)"
    unfolding g by (simp add: degree_shape s)
  have c2: "\<forall>n. neighbors (graph (store_relationship st rel attr)) n = neighbors (graph st) n"
    unfolding g by (simp add: neighbors_shape s)
  have c3: "edge_attr (graph (store_relationship st rel attr)) ?u ?v = Some (dict_update old attr)"
    unfolding g by (simp add: ea)
  have c4: "edge_attr (graph (store_relationship st rel attr)) ?v ?u = Some (dict_update old attr)"
    unfolding g by (simp add: ea)
  have c5: "map_of (dict_update old attr) = map_of old ++ map_of (rev attr)"
    by (rule map_of_dict_update)
  have c6: "\<forall>a b. (a, b) \<noteq> (?u, ?v) \<longrightarrow> (a, b) \<noteq> (?v, ?u) \<longrightarrow>
                edge_attr (graph (store_relationship st rel attr)) a b = edge_attr (graph st) a b"
    unfolding g by (simp add: ea)
  have c7: "relationships (store_relationship st rel attr) = relationships st @ [rel]"
    by (simp add: store_relationship_def)
  from old c1 c2 c3 c4 c5 c6 c7 show ?thesis by blast
qed

theorem parallel_fact_adds_no_edge_witness:
  "r_target familiar_AB \<in> set (neighbors (graph triangle) (r_source familiar_AB)) \<and>
   r_source familiar_AB \<in> set (neighbors (graph triangle) (r_target familiar_AB)) \<and>
   degree (graph (store_relationship triangle familiar_AB
                    [(''relationship_type'', PStr ''familiar'')])) = degree (graph triangle) \<and>
   edge_attr (graph triangle) ''A'' ''B'' = Some [] \<and>
   edge_attr (graph (store_relationship triangle familiar_AB
                       [(''relationship_type'', PStr ''familiar'')])) ''A'' ''B''
     = Some [(''relationship_type'', PStr ''familiar'')] \<and>
   edge_attr (graph (store_relationship triangle familiar_AB
                       [(''relationship_type'', PStr ''familiar'')])) ''B'' ''A''
     = Some [(''relationship_type'', PStr ''familiar'')] \<and>
   relationships (store_relationship triangle familiar_AB
                    [(''relationship_type'', PStr ''familiar'')]) = [familiar_AB]"
proof -
  let ?attr = "[(''relationship_type'', PStr ''familiar'')]"
  have a: "r_target familiar_AB \<in> set (neighbors (graph triangle) (r_source familiar_AB))"
    by code_simp
  have b: "r_source familiar_AB \<in> set (neighbors (graph triangle) (r_target familiar_AB))"
    by code_simp
  have o: "edge_attr (graph triangle) ''A'' ''B'' = Some []" by code_simp
  have i: "r_source familiar_AB = ''A''" "r_target familiar_AB = ''B''"
    by (simp_all add: familiar_AB_def)
  have d: "dict_update [] ?attr = ?attr" by (simp add: dict_update_def)
  have r: "relationships triangle = []" by (simp add: triangle_def)
  from parallel_fact_adds_no_edge[OF a b, of ?attr] a b o
  show ?thesis unfolding i by (auto simp: d r)
qed

text \<open>
  C5, as stated, fails: after two facts between a and b the graph holds one edge, and
  the degree of a and of b is 1.
\<close>

theorem parallel_facts_counted_once:
  "degree parallel_graph = [(''a'', 1), (''b'', 1)] \<and> neighbors parallel_graph ''a'' = [''b'']"
  by code_simp

section \<open>Suspicious cycles\<close>

text \<open>
  C6. On the triangle of the official A, the company B and the official C, with the edges
  A-B, B-C and C-A, \<^verbatim>\<open>detect_suspicious_patterns\<close> returns exactly one finding, a
  suspicious cycle, and its node list holds the three nodes.
\<close>

theorem triangle_one_suspicious_cycle:
  "detect_suspicious_patterns triangle = Returns [Ciclo_sospechoso [''B'', ''A'', ''C'']] \<and>
   set [''B'', ''A'', ''C''] = {''A'', ''B'', ''C''}"
  using triangle_detect by auto

text \<open>
  C7. Every suspicious cycle that \<^verbatim>\<open>detect_suspicious_patterns\<close> reports has at
  least \<open>min_cycle_length\<close> nodes, one of them a \<^verbatim>\<open>funcionario\<close> and one an
  \<^verbatim>\<open>empresa\<close>; so a cycle whose nodes lack one of the two types gives no finding, and
  the triangle of three officials gives none.
\<close>

theorem cycle_needs_both_types:
  "(detect_suspicious_patterns st = Returns fs \<longrightarrow> Ciclo_sospechoso ns \<in> set fs \<longrightarrow>
      min_cycle_length \<le> length ns \<and>
      (\<exists>n \<in> set ns. type_of_node st n = Some ''funcionario'') \<and>
      (\<exists>n \<in> set ns. type_of_node st n = Some ''empresa'')) \<and>
   detect_suspicious_patterns official_triangle = Returns []"
proof (intro conjI impI)
  assume r: "detect_suspicious_patterns st = Returns fs" and c: "Ciclo_sospechoso ns \<in> set fs"
  from detect_Returns[OF r] c
  have b: "detect_body min_cycle_length max_degree_std st = Returns fs" by auto
  from detect_body_ciclo[OF b c]
  show "min_cycle_length \<le> length ns"
    and "\<exists>n \<in> set ns. type_of_node st n = Some ''funcionario''"
    and "\<exists>n \<in> set ns. type_of_node st n = Some ''empresa''"
    by auto
next
  show "detect_suspicious_patterns official_triangle = Returns []" by (rule official_detect)
qed

theorem cycle_needs_both_types_witness:
  "detect_suspicious_patterns triangle = Returns [Ciclo_sospechoso [''B'', ''A'', ''C'']] \<and>
   Ciclo_sospechoso [''B'', ''A'', ''C''] \<in> set [Ciclo_sospechoso [''B'', ''A'', ''C'']] \<and>
   min_cycle_length \<le> length [''B'', ''A'', ''C''] \<and>
   (\<exists>n \<in> set [''B'', ''A'', ''C'']. type_of_node triangle n = Some ''funcionario'') \<and>
   (\<exists>n \<in> set [''B'', ''A'', ''C'']. type_of_node triangle n = Some ''empresa'')"
proof -
  have m: "Ciclo_sospechoso [''B'', ''A'', ''C''] \<in> set [Ciclo_sospechoso [''B'', ''A'', ''C'']]"
    by simp
  from cycle_needs_both_types[of triangle "[Ciclo_sospechoso [''B'', ''A'', ''C'']]"
      "[''B'', ''A'', ''C'']"] triangle_detect m
  show ?thesis by blast
qed

section \<open>Concentration of contracts\<close>

text \<open>
  C8. When all company nodes of the graph have the same degree, or the graph has fewer
  than two company nodes, no finding that \<^verbatim>\<open>detect_suspicious_patterns\<close> returns is
  a concentration of contracts.
\<close>

theorem uniform_or_few_companies_not_flagged:
  assumes "(\<forall>p \<in> set (company_degrees st). \<forall>q \<in> set (company_degrees st). snd p = snd q) \<or>
           length (company_degrees st) < 2"
    and "detect_suspicious_patterns st = Returns fs"
  shows "Concentracion_contratos n deg \<notin> set fs"
proof -
  from detect_Returns[OF assms(2)] show ?thesis
  proof
    assume "fs = []"
    then show ?thesis by simp
  next
    assume "detect_body min_cycle_length max_degree_std st = Returns fs"
    then show ?thesis using assms(1) by (rule detect_body_uniform)
  qed
qed

theorem uniform_or_few_companies_not_flagged_witness:
  "map snd (company_degrees uniform) = [5, 5, 5] \<and>
   detect_suspicious_patterns uniform = Returns [] \<and>
   Concentracion_contratos ''K1'' 5 \<notin> set [] \<and>
   length (company_degrees triangle) < 2 \<and>
   detect_suspicious_patterns triangle = Returns [Ciclo_sospechoso [''B'', ''A'', ''C'']] \<and>
   Concentracion_contratos ''B'' 2 \<notin> set [Ciclo_sospechoso [''B'', ''A'', ''C'']]"
proof -
  have u: "\<forall>p \<in> set (company_degrees uniform). \<forall>q \<in> set (company_degrees uniform). snd p = snd q"
    by (simp add: uniform_company_degrees)
  have t: "length (company_degrees triangle) < 2"
    by (simp add: triangle_company_degrees)
  from uniform_or_few_companies_not_flagged[OF disjI1[OF u] uniform_detect, of "''K1''" 5]
    uniform_or_few_companies_not_flagged[OF disjI2[OF t] triangle_detect, of "''B''" 2]
    t uniform_detect triangle_detect
  show ?thesis by (simp add: uniform_company_degrees)
qed

section \<open>Exceptions\<close>

text \<open>
  C9. \<^verbatim>\<open>detect_suspicious_patterns\<close> of \<^verbatim>\<open>main.py\<close> raises on no analyzer state,
  connected or not; on the fresh analyzer it returns the empty list, and so it does on
  the graph of two components.
\<close>

theorem detect_never_raises:
  "detect_suspicious_patterns st \<noteq> Raises err \<and>
   detect_suspicious_patterns init = Returns [] \<and>
   detect_suspicious_patterns two_components = Returns []"
  by (simp add: detect_not_Raises two_components_detect)
     (simp add: detect_suspicious_patterns_def init_detect_body)

section \<open>The degrees 1, 1, 1, 1 and 10\<close>

text \<open>
  C3, as stated, fails: for the companies of degrees 1, 1, 1, 1 and 10 the mean is 14/5
  and the deviation 18/5, so the threshold is exactly 10, and
  \<^verbatim>\<open>detect_suspicious_patterns\<close> returns no finding for the company of degree 10.
\<close>

theorem degree_ten_not_flagged:
  "map snd (company_degrees hub) = [1, 1, 1, 1, 10] \<and>
   threshold max_degree_std (company_degrees hub) = 10 \<and>
   detect_suspicious_patterns hub = Returns []"
proof -
  have "threshold max_degree_std (company_degrees hub) = 10"
    unfolding max_degree_std_def by (rule boundary_threshold) (simp add: hub_company_degrees)
  then show ?thesis by (simp add: hub_company_degrees hub_detect)
qed

text \<open>
  C3, as amended. On a graph with distinct nodes whose companies have the degrees
  1, 1, 1, 1 and 10, the threshold is 10 and no finding that
  \<^verbatim>\<open>detect_suspicious_patterns\<close> returns is a concentration of contracts: a degree
  is flagged only when it is strictly greater than the threshold.
\<close>

theorem boundary_degrees_not_flagged:
  assumes "distinct (map fst (graph st))"
    and "map snd (company_degrees st) = [1, 1, 1, 1, 10]"
    and "detect_suspicious_patterns st = Returns fs"
  shows "threshold max_degree_std (company_degrees st) = 10 \<and>
         Concentracion_contratos n deg \<notin> set fs"
proof
  show "threshold max_degree_std (company_degrees st) = 10"
    unfolding max_degree_std_def using assms(2) by (rule boundary_threshold)
next
  from detect_Returns[OF assms(3)] show "Concentracion_contratos n deg \<notin> set fs"
  proof
    assume "fs = []"
    then show ?thesis by simp
  next
    assume "detect_body min_cycle_length max_degree_std st = Returns fs"
    then have "detect_body min_cycle_length 2 st = Returns fs" by (simp add: max_degree_std_def)
    then show ?thesis using assms(1,2) by (rule detect_body_boundary)
  qed
qed

theorem boundary_degrees_not_flagged_witness:
  "distinct (map fst (graph hub)) \<and>
   map snd (company_degrees hub) = [1, 1, 1, 1, 10] \<and>
   detect_suspicious_patterns hub = Returns [] \<and>
   threshold max_degree_std (company_degrees hub) = 10 \<and>
   Concentracion_contratos ''H'' 10 \<notin> set []"
proof -
  have c: "map snd (company_degrees hub) = [1, 1, 1, 1, 10]"
    by (simp add: hub_company_degrees)
  from boundary_degrees_not_flagged[OF hub_distinct c hub_detect, of "''H''" 10]
    hub_distinct c hub_detect
  show ?thesis by simp
qed

end
